theory Spec2Isabelle
  imports Main "HOL-Library.Word"
begin

section \<open>Machine types and the collaborators of the two packages\<close>

text \<open>
  Go's \<^verbatim>\<open>int64\<close> is a 64-bit word: \<open>-\<close> and \<open>*\<close> wrap around, and \<open><\<close> on
  \<^verbatim>\<open>int64\<close> is the signed comparison \<open><s\<close>. \<^verbatim>\<open>fsnotify.Op\<close> is a \<^verbatim>\<open>uint32\<close>
  bit mask, \<^verbatim>\<open>Gazer.counter\<close> a \<^verbatim>\<open>uint64\<close>.
\<close>

type_synonym int64 = "64 word"
type_synonym uint64 = "64 word"
type_synonym Op = "32 word"

text \<open>The operation bits of fsnotify (\<^verbatim>\<open>Create Op = 1 << iota\<close>, then Write, Remove, Rename, Chmod).\<close>

definition Create :: Op where "Create = 1"
definition Write :: Op where "Write = 2"
definition Remove :: Op where "Remove = 4"
definition Rename :: Op where "Rename = 8"
definition Chmod :: Op where "Chmod = 16"

text \<open>
  Everything the code reads from outside is a field of \<open>World\<close>: the file system probes of
  \<^verbatim>\<open>pkg/fs\<close> (\<^verbatim>\<open>IsDir\<close>, \<^verbatim>\<open>IsFile\<close>, \<^verbatim>\<open>Find\<close>, \<^verbatim>\<open>TrimSuffix\<close>, \<^verbatim>\<open>GlobMatch\<close>), the file
  modification time of \<^verbatim>\<open>pkg/time\<close>, the functions \<^verbatim>\<open>Clean\<close> and \<^verbatim>\<open>Dir\<close> and the constant
  \<^verbatim>\<open>Separator\<close> of \<^verbatim>\<open>path/filepath\<close>. None of them is defined in the two source files, so
  they are parameters. \<open>NewWatcherErr\<close> is the error of \<^verbatim>\<open>fsnotify.NewWatcher()\<close>, if any,
  and \<open>AddErr t\<close> says that \<^verbatim>\<open>watcher.Add(t)\<close> fails. \<^verbatim>\<open>time.Now()\<close> is read at two
  places of the notifier (inside \<^verbatim>\<open>shouldExecute\<close> for a rename, and in \<^verbatim>\<open>wait\<close> on
  acceptance): \<open>NowCheck\<close> and
  \<open>NowAccept\<close> are these two readings for one raw event; \<open>NowDispatch\<close> is the reading of
  the Dispatcher when it starts a command. \<open>render\<close> is the function of that name of package
  gazer, whose file is not among the sources.
\<close>

record World =
  IsDir :: "string \<Rightarrow> bool"
  IsFile :: "string \<Rightarrow> bool"
  Find :: "string \<Rightarrow> string list \<times> string list"
  TrimSuffix :: "string \<Rightarrow> string \<Rightarrow> string"
  GlobMatch :: "string \<Rightarrow> string \<Rightarrow> bool"
  GetFileModifiedTime :: "string \<Rightarrow> int64"
  Clean :: "string \<Rightarrow> string"
  Dir :: "string \<Rightarrow> string"
  Separator :: char
  NowCheck :: int64
  NowAccept :: int64
  NowDispatch :: int64
  NewWatcherErr :: "string option"
  AddErr :: "string \<Rightarrow> bool"
  render :: "string \<Rightarrow> string \<Rightarrow> string"

section \<open>Package notify\<close>

text \<open>
  \<^verbatim>\<open>Notify\<close>: the fsnotify watcher is the list of directories handed to \<^verbatim>\<open>watcher.Add\<close>
  with success; the two channels are the values returned by the step functions.
  \<^verbatim>\<open>times\<close> is a Go map: a missing key reads as 0.
\<close>

record Notify =
  watcher :: "string list"
  isClosed :: bool
  times :: "string \<rightharpoonup> int64"
  pendingPeriod :: int64
  regardRenameAsModPeriod :: int64
  detectCreate :: bool

record Event =
  Name :: string
  Time :: int64

text \<open>The raw \<^verbatim>\<open>fsnotify.Event\<close>.\<close>

record RawEvent =
  rawName :: string
  rawOp :: Op

definition times_get :: "(string \<rightharpoonup> int64) \<Rightarrow> string \<Rightarrow> int64" where
  "times_get m p = (case m p of None \<Rightarrow> 0 | Some t \<Rightarrow> t)"

definition shouldExecute :: "World \<Rightarrow> Notify \<Rightarrow> string \<Rightarrow> Op \<Rightarrow> bool" where
  "shouldExecute w n filePath op =
     (if op \<noteq> Write \<and> op \<noteq> Rename \<and> \<not> (detectCreate n \<and> op = Create) then False
      else
        let lastExecutionTime = times_get (times n) filePath in
        if \<not> IsFile w filePath then False
        else
          let modifiedTime = GetFileModifiedTime w filePath in
          if (op = Write \<or> op = Create)
             \<and> (modifiedTime - lastExecutionTime) <s (pendingPeriod n * 1000000) then False
          else if op = Rename
             \<and> (regardRenameAsModPeriod n * 1000000) <s (NowCheck w - modifiedTime) then False
          else True)"

text \<open>
  One iteration of the loop of \<^verbatim>\<open>wait\<close> that receives from \<^verbatim>\<open>watcher.Events\<close>; \<open>ok\<close> is
  the second value of the receive. The result is the new state and the event sent on
  \<^verbatim>\<open>n.Events\<close>, if any. The error of \<^verbatim>\<open>n.watcher.Add\<close> is not looked at by the code: a
  directory whose \<^verbatim>\<open>Add\<close> fails is not watched, and the loop goes on.
\<close>

definition wait_step :: "World \<Rightarrow> RawEvent \<Rightarrow> bool \<Rightarrow> Notify \<Rightarrow> Notify \<times> Event option" where
  "wait_step w event ok n =
     (let normalizedName = Clean w (rawName event);
          n1 = (if rawOp event = Create \<and> IsDir w normalizedName \<and> \<not> AddErr w normalizedName
                then n\<lparr>watcher := watcher n @ [normalizedName]\<rparr> else n)
      in if \<not> ok then (n1, None)
         else if \<not> shouldExecute w n1 normalizedName (rawOp event) then (n1, None)
         else
           let now = NowAccept w
           in (n1\<lparr>times := (times n1)(normalizedName \<mapsto> now)\<rparr>,
               Some \<lparr>Name = normalizedName, Time = now\<rparr>))"

text \<open>The loop over a sequence of receives, each with the world it is handled in.\<close>

fun wait_run :: "(World \<times> RawEvent \<times> bool) list \<Rightarrow> Notify \<Rightarrow> Notify \<times> Event list" where
  "wait_run [] n = (n, [])"
| "wait_run ((w, event, ok) # rest) n =
     (case wait_step w event ok n of
        (n1, out) \<Rightarrow>
          (case wait_run rest n1 of
             (n2, outs) \<Rightarrow> (n2, (case out of None \<Rightarrow> [] | Some e \<Rightarrow> [e]) @ outs)))"

subsection \<open>The directories to watch\<close>

text \<open>
  Modelled from the spec: \<^verbatim>\<open>pkg/uniq\<close> is not among the sources; the spec calls it a
  deduplicated, insertion-ordered set. \<open>uniq_Add\<close> appends an element that is not there
  yet, \<^verbatim>\<open>Len\<close> is \<open>length\<close> and \<^verbatim>\<open>List\<close> the list itself.
\<close>

definition uniq_Add :: "string list \<Rightarrow> string \<Rightarrow> string list" where
  "uniq_Add targets x = (if x \<in> set targets then targets else targets @ [x])"

text \<open>\<^verbatim>\<open>filepath.ToSlash\<close>: every separator becomes a slash.\<close>

definition ToSlash :: "World \<Rightarrow> string \<Rightarrow> string" where
  "ToSlash w path = map (\<lambda>c. if c = Separator w then CHR ''/'' else c) path"

text \<open>\<^verbatim>\<open>strings.Split(s, "/")\<close>: the pieces between the slashes, one piece for the empty string.\<close>

fun Split :: "string \<Rightarrow> string list" where
  "Split [] = [[]]"
| "Split (c # cs) =
     (if c = CHR ''/'' then [] # Split cs
      else (case Split cs of [] \<Rightarrow> [[c]] | e # es \<Rightarrow> (c # e) # es))"

text \<open>\<^verbatim>\<open>strings.IndexAny(entry, "*?[{\\") != -1\<close>.\<close>

definition hasGlob :: "string \<Rightarrow> bool" where
  "hasGlob entry =
     list_ex (\<lambda>c. c = CHR ''*'' \<or> c = CHR ''?'' \<or> c = CHR ''['' \<or> c = CHR ''{'' \<or> c = CHR 0x5C) entry"

text \<open>The loop of \<^verbatim>\<open>findRealDirectory\<close>, which stops at the first entry with a glob character.\<close>

fun literalPrefix :: "char \<Rightarrow> string list \<Rightarrow> string" where
  "literalPrefix sep [] = []"
| "literalPrefix sep (e # es) = (if hasGlob e then [] else e @ [sep] @ literalPrefix sep es)"

definition findRealDirectory :: "World \<Rightarrow> string \<Rightarrow> string" where
  "findRealDirectory w path =
     (let entries = Split (ToSlash w (Clean w path));
          currentPath = TrimSuffix w (literalPrefix (Separator w) entries) [Separator w]
      in if IsDir w currentPath then currentPath else [])"

text \<open>The loop of \<^verbatim>\<open>findDirs\<close> over the patterns, with the set \<open>targets\<close> built so far.\<close>

fun findDirs_loop :: "World \<Rightarrow> string list \<Rightarrow> int \<Rightarrow> string list \<Rightarrow> string list" where
  "findDirs_loop w [] maxWatchDirs targets = targets"
| "findDirs_loop w (pattern # rest) maxWatchDirs targets =
     (let patternDir = Dir w pattern;
          realDir = findRealDirectory w patternDir;
          t1 = (if length realDir > 0 then uniq_Add targets realDir else targets)
      in if int (length t1) > maxWatchDirs then t1
         else
           let t2 = foldl uniq_Add t1 (snd (Find w pattern))
           in if int (length t2) > maxWatchDirs then t2
              else
                let t3 = foldl uniq_Add t2 (snd (Find w patternDir))
                in if int (length t3) > maxWatchDirs then t3
                   else findDirs_loop w rest maxWatchDirs t3)"

definition findDirs :: "World \<Rightarrow> string list \<Rightarrow> int \<Rightarrow> string list" where
  "findDirs w patterns maxWatchDirs = findDirs_loop w patterns maxWatchDirs []"

subsection \<open>Construction\<close>

text \<open>
  \<open>SliceBounds\<close> is the run-time panic of \<^verbatim>\<open>watchDirs[:maxWatchDirs]\<close> for a negative
  \<^verbatim>\<open>maxWatchDirs\<close>. \<open>New\<close> returns the pair of \<^verbatim>\<open>(*Notify, error)\<close> as a sum, and with it
  the directories for which \<^verbatim>\<open>watcher.Add\<close> was called.
\<close>

datatype error = WatcherError string | TooManyWatchDirs | SliceBounds

definition New :: "World \<Rightarrow> string list \<Rightarrow> int \<Rightarrow> (error + Notify) \<times> string list" where
  "New w patterns maxWatchDirs =
     (case NewWatcherErr w of
        Some err \<Rightarrow> (Inl (WatcherError err), [])
      | None \<Rightarrow>
          let watchDirs = findDirs w patterns maxWatchDirs
          in if int (length watchDirs) > maxWatchDirs
             then (if maxWatchDirs < 0 then (Inl SliceBounds, []) else (Inl TooManyWatchDirs, []))
             else (Inr \<lparr>watcher = filter (\<lambda>t. \<not> AddErr w t) watchDirs,
                        isClosed = False,
                        times = Map.empty,
                        pendingPeriod = 100,
                        regardRenameAsModPeriod = 1000,
                        detectCreate = True\<rparr>,
                   watchDirs))"

definition PendingPeriod :: "int64 \<Rightarrow> Notify \<Rightarrow> Notify" where
  "PendingPeriod p n = n\<lparr>pendingPeriod := p\<rparr>"

section \<open>Package gazer\<close>

text \<open>
  A rule of the command table (\<^verbatim>\<open>config.Command\<close>, whose package is not among the
  sources): the three fields the Dispatcher reads. Its method \<^verbatim>\<open>Match\<close> is a parameter
  of the functions below.
\<close>

record Command =
  Ext :: string
  Re :: string
  Run :: string

text \<open>
  The Dispatcher reads \<^verbatim>\<open>event.Name\<close> and \<^verbatim>\<open>event.Op\<close> of what it receives from
  \<^verbatim>\<open>g.notify.Events\<close>: the event of the notifier together with the operation it comes from.
\<close>

record OpEvent = Event +
  Op :: Op

record Gazer =
  patterns :: "string list"
  notify :: "Notify option"
  gazerIsClosed :: bool
  counter :: uint64

text \<open>
  \<^verbatim>\<open>gazer.New\<close> drops the error of \<^verbatim>\<open>notify.New\<close> (\<^verbatim>\<open>notify, _ := ...\<close>) and keeps the pointer,
  nil on failure. The call in the source passes the patterns only; the directory limit is
  a parameter here.
\<close>

definition gazer_New :: "World \<Rightarrow> int \<Rightarrow> string list \<Rightarrow> Gazer" where
  "gazer_New w maxWatchDirs pats =
     (let cleanPatterns = map (Clean w) pats
      in \<lparr>patterns = cleanPatterns,
          notify = (case fst (New w cleanPatterns maxWatchDirs) of
                      Inl e \<Rightarrow> None | Inr n \<Rightarrow> Some n),
          gazerIsClosed = False,
          counter = 0\<rparr>)"

fun matchAny :: "World \<Rightarrow> string list \<Rightarrow> string \<Rightarrow> bool" where
  "matchAny w [] s = False"
| "matchAny w (f # fs) s = (if GlobMatch w f s then True else matchAny w fs s)"

fun getAppropriateCommand ::
  "World \<Rightarrow> (Command \<Rightarrow> string \<Rightarrow> bool) \<Rightarrow> string \<Rightarrow> Command list \<Rightarrow> string" where
  "getAppropriateCommand w Match filePath [] = []"
| "getAppropriateCommand w Match filePath (c # cs) =
     (if Run c = [] \<or> Ext c = [] \<and> Re c = [] then getAppropriateCommand w Match filePath cs
      else if Match c filePath then render w (Run c) filePath
      else getAppropriateCommand w Match filePath cs)"

text \<open>
  What the loop of \<^verbatim>\<open>repeatRunAndWait\<close> does to the outside: \<open>Kill c\<close> is
  \<^verbatim>\<open>kill(ongoingCommand, "Restart")\<close>, \<open>Execute c t\<close> the blocking
  \<^verbatim>\<open>executeCommandOrTimeout(cmd, timeout)\<close> and \<open>Spawn c t\<close> the same call in a goroutine.
  A command is the string it was created from.
\<close>

datatype Action = Kill string | Execute string int | Spawn string int

text \<open>The Gazer with the local variables of \<^verbatim>\<open>repeatRunAndWait\<close> and the actions so far.\<close>

record Loop =
  gazer :: Gazer
  lastExecutionTime :: int64
  ongoingCommand :: "string option"
  actions :: "Action list"

definition ignorePeriod :: int64 where
  "ignorePeriod = 10 * 1000000"

text \<open>
  One iteration of the loop that receives from \<^verbatim>\<open>g.notify.Events\<close>; \<open>ok\<close> is the second
  value of the receive.
\<close>

definition handle_event ::
  "World \<Rightarrow> (Command \<Rightarrow> string \<Rightarrow> bool) \<Rightarrow> Command list \<Rightarrow> int \<Rightarrow> bool \<Rightarrow> OpEvent \<Rightarrow> bool \<Rightarrow> Loop \<Rightarrow> Loop" where
  "handle_event w Match commands timeout restart event ok s =
     (let flag = or Write Rename
      in if ok \<and> or (Op event) flag = 0 then s
         else if \<not> matchAny w (patterns (gazer s)) (Name event) then s
         else
           let modifiedTime = GetFileModifiedTime w (Name event)
           in if (modifiedTime - lastExecutionTime s) <s ignorePeriod then s
              else
                let s1 = s\<lparr>gazer := (gazer s)\<lparr>counter := counter (gazer s) + 1\<rparr>\<rparr>;
                    commandString = getAppropriateCommand w Match (Name event) commands
                in if commandString = [] then s1
                   else
                     let s2 = (case ongoingCommand s1 of
                                 Some c \<Rightarrow> s1\<lparr>ongoingCommand := None, actions := actions s1 @ [Kill c]\<rparr>
                               | None \<Rightarrow> s1);
                         s3 = s2\<lparr>lastExecutionTime := NowDispatch w\<rparr>
                     in if \<not> restart
                        then s3\<lparr>actions := actions s3 @ [Execute commandString timeout]\<rparr>
                        else s3\<lparr>ongoingCommand := Some commandString,
                                actions := actions s3 @ [Spawn commandString timeout]\<rparr>)"

text \<open>The goroutine of a restartable command, when the command has ended.\<close>

definition command_ended :: "Loop \<Rightarrow> Loop" where
  "command_ended s = s\<lparr>ongoingCommand := None\<rparr>"

text \<open>The loop over a sequence of receives, each with the world it is handled in.\<close>

fun handle_events ::
  "(Command \<Rightarrow> string \<Rightarrow> bool) \<Rightarrow> Command list \<Rightarrow> int \<Rightarrow> bool \<Rightarrow> (World \<times> OpEvent \<times> bool) list \<Rightarrow> Loop \<Rightarrow> Loop" where
  "handle_events Match commands timeout restart [] s = s"
| "handle_events Match commands timeout restart ((w, event, ok) # rest) s =
     handle_events Match commands timeout restart rest
       (handle_event w Match commands timeout restart event ok s)"

text \<open>The state in which \<^verbatim>\<open>repeatRunAndWait\<close> enters its loop.\<close>

definition loop_start :: "Gazer \<Rightarrow> Loop" where
  "loop_start g = \<lparr>gazer = g, lastExecutionTime = 0, ongoingCommand = None, actions = []\<rparr>"

definition Counter :: "Gazer \<Rightarrow> uint64" where
  "Counter g = counter g"

section \<open>The Directory Resolver in the words of the spec\<close>

text \<open>
  A path segment is a glob segment when one of the metacharacters \<^verbatim>\<open>* ? [ {\<close> and the
  backslash occurs in it. The literal leading prefix of a path is made of its segments
  before the first glob segment, each followed by the separator, with the separator at
  the end trimmed. A path is a source of one directory when it is not empty and an
  existing directory, and of none otherwise.
\<close>

definition glob_segment :: "string \<Rightarrow> bool" where
  "glob_segment seg = (set seg \<inter> {CHR ''*'', CHR ''?'', CHR ''['', CHR ''{'', CHR 0x5C} \<noteq> {})"

definition literal_prefix :: "World \<Rightarrow> string \<Rightarrow> string" where
  "literal_prefix w path =
     TrimSuffix w
       (concat (map (\<lambda>seg. seg @ [Separator w])
          (takeWhile (\<lambda>seg. \<not> glob_segment seg) (Split (ToSlash w (Clean w path))))))
       [Separator w]"

definition existing_directory :: "World \<Rightarrow> string \<Rightarrow> string list" where
  "existing_directory w path = (if path \<noteq> [] \<and> IsDir w path then [path] else [])"

text \<open>
  The three sources of one pattern as the spec words them: (1) the literal leading prefix
  of the pattern, when it is an existing directory; (2) the directories of the expansion
  of the pattern; (3) the directories of the expansion of the parent of the pattern.
\<close>

definition claimed_sources :: "World \<Rightarrow> string \<Rightarrow> string list list" where
  "claimed_sources w pattern =
     [existing_directory w (literal_prefix w pattern),
      snd (Find w pattern),
      snd (Find w (Dir w pattern))]"

text \<open>
  The same three sources with the one change of the amended claim: in (1) the literal
  leading prefix is that of the parent of the pattern (\<^verbatim>\<open>filepath.Dir\<close>), not of the pattern.
\<close>

definition spec_sources :: "World \<Rightarrow> string \<Rightarrow> string list list" where
  "spec_sources w pattern =
     [existing_directory w (literal_prefix w (Dir w pattern)),
      snd (Find w pattern),
      snd (Find w (Dir w pattern))]"

text \<open>
  \<open>keep_first\<close> is the deduplicated, insertion-ordered list: every element once, at the
  place of its first occurrence. \<open>spec_resolve\<close> takes the sources one at a time and
  stops at the first one after which the set is larger than \<open>maxDirs\<close>.
\<close>

definition keep_first :: "string list \<Rightarrow> string list" where
  "keep_first xs = rev (remdups (rev xs))"

fun spec_resolve :: "int \<Rightarrow> string list list \<Rightarrow> string list \<Rightarrow> string list" where
  "spec_resolve maxDirs [] seen = keep_first seen"
| "spec_resolve maxDirs (source # sources) seen =
     (if int (length (keep_first (seen @ source))) > maxDirs then keep_first (seen @ source)
      else spec_resolve maxDirs sources (seen @ source))"

text \<open>The resolver of the claim as it is stated, over the sources as the spec words them.\<close>

definition claimed_findDirs :: "World \<Rightarrow> string list \<Rightarrow> int \<Rightarrow> string list" where
  "claimed_findDirs w pats maxDirs = spec_resolve maxDirs (concat (map (claimed_sources w) pats)) []"


section \<open>Clock readings along a run\<close>

text \<open>
  The readings of \<^verbatim>\<open>time.Now()\<close> on acceptance never go back from \<open>t\<close> on along the run,
  and the last of them.
\<close>

fun clock_from :: "int64 \<Rightarrow> (World \<times> RawEvent \<times> bool) list \<Rightarrow> bool" where
  "clock_from t [] = True"
| "clock_from t ((w, event, ok) # rest) = (t \<le>s NowAccept w \<and> clock_from (NowAccept w) rest)"

fun clock_end :: "int64 \<Rightarrow> (World \<times> RawEvent \<times> bool) list \<Rightarrow> int64" where
  "clock_end t [] = t"
| "clock_end t ((w, event, ok) # rest) = clock_end (NowAccept w) rest"

section \<open>A concrete scenario\<close>

text \<open>
  One watched directory \<^verbatim>\<open>src\<close> with one regular file \<^verbatim>\<open>src/a.txt\<close>, the pattern
  \<^verbatim>\<open>src/*.txt\<close>, and the modification time of the file and the clock as parameters.
\<close>

definition trim_suffix :: "string \<Rightarrow> string \<Rightarrow> string" where
  "trim_suffix s suffix =
     (if length suffix \<le> length s \<and> drop (length s - length suffix) s = suffix
      then take (length s - length suffix) s else s)"

definition demo_world :: "int64 \<Rightarrow> int64 \<Rightarrow> World" where
  "demo_world mtime now =
     \<lparr>IsDir = (\<lambda>p. p = ''src''),
      IsFile = (\<lambda>p. p = ''src/a.txt''),
      Find = (\<lambda>p. if p = ''src/*.txt'' then ([''src/a.txt''], [''src''])
                  else if p = ''src'' then ([], [''src'']) else ([], [])),
      TrimSuffix = trim_suffix,
      GlobMatch = (\<lambda>f s. f = ''src/*.txt'' \<and> s = ''src/a.txt''),
      GetFileModifiedTime = (\<lambda>p. if p = ''src/a.txt'' then mtime else 0),
      Clean = (\<lambda>p. p),
      Dir = (\<lambda>p. if p = ''src/*.txt'' \<or> p = ''src/a.txt'' then ''src'' else ''.''),
      Separator = CHR ''/'',
      NowCheck = now, NowAccept = now, NowDispatch = now,
      NewWatcherErr = None,
      AddErr = (\<lambda>t. False),
      render = (\<lambda>run file. run @ '' '' @ file)\<rparr>"

definition demo_notify :: Notify where
  "demo_notify = \<lparr>watcher = [''src''], isClosed = False, times = Map.empty,
     pendingPeriod = 100, regardRenameAsModPeriod = 1000, detectCreate = True\<rparr>"

definition demo_raw :: "Op \<Rightarrow> RawEvent" where
  "demo_raw op = \<lparr>rawName = ''src/a.txt'', rawOp = op\<rparr>"

text \<open>The same world where \<^verbatim>\<open>src/a.txt\<close> is a directory and nothing is a regular file.\<close>

definition demo_dir_world :: World where
  "demo_dir_world = (demo_world 1700000000000000000 1700000000001000000)
     \<lparr>IsDir := (\<lambda>p. p = ''src'' \<or> p = ''src/a.txt''), IsFile := (\<lambda>p. False)\<rparr>"

text \<open>
  For the Dispatcher: two regular files \<^verbatim>\<open>src/a.txt\<close> and \<^verbatim>\<open>src/b.txt\<close> that match the
  pattern, a \<^verbatim>\<open>Match\<close> that compares the extension, a table with one rule for \<^verbatim>\<open>.txt\<close> and
  a table with one rule for \<^verbatim>\<open>.go\<close>.
\<close>

definition demo_files :: "int64 \<Rightarrow> int64 \<Rightarrow> World" where
  "demo_files mtime now = (demo_world mtime now)
     \<lparr>IsFile := (\<lambda>p. p = ''src/a.txt'' \<or> p = ''src/b.txt''),
      GlobMatch := (\<lambda>f s. f = ''src/*.txt'' \<and> (s = ''src/a.txt'' \<or> s = ''src/b.txt'')),
      GetFileModifiedTime := (\<lambda>p. mtime)\<rparr>"

definition demo_Match :: "Command \<Rightarrow> string \<Rightarrow> bool" where
  "demo_Match c filePath =
     (Ext c \<noteq> [] \<and> length (Ext c) \<le> length filePath
      \<and> drop (length filePath - length (Ext c)) filePath = Ext c)"

definition demo_commands :: "Command list" where
  "demo_commands = [\<lparr>Ext = ''.txt'', Re = [], Run = ''echo''\<rparr>]"

definition demo_gazer :: Gazer where
  "demo_gazer = \<lparr>patterns = [''src/*.txt''], notify = Some demo_notify,
     gazerIsClosed = False, counter = 0\<rparr>"

definition demo_event :: "string \<Rightarrow> Op \<Rightarrow> OpEvent" where
  "demo_event name op = \<lparr>Name = name, Time = 0, Op = op\<rparr>"


text \<open>The same world where \<^verbatim>\<open>fsnotify.NewWatcher()\<close> fails.\<close>

definition demo_failing_world :: World where
  "demo_failing_world = (demo_world 0 0)\<lparr>NewWatcherErr := Some ''too many open files''\<rparr>"

text \<open>
  For the Directory Resolver: the current directory with the directory \<^verbatim>\<open>src\<close>, its
  subdirectory \<^verbatim>\<open>src/x\<close> and the file \<^verbatim>\<open>src/x/a.go\<close>.
\<close>

definition demo_tree :: World where
  "demo_tree = (demo_world 0 0)
     \<lparr>IsDir := (\<lambda>p. p = ''.'' \<or> p = ''src'' \<or> p = ''src/x''),
      IsFile := (\<lambda>p. p = ''src/x/a.go''),
      Find := (\<lambda>p. if p = ''src/*/a.go'' then ([''src/x/a.go''], [''src/x''])
                  else if p = ''src/*'' then ([], [''src/x''])
                  else if p = ''src'' then ([], [''src''])
                  else if p = ''.'' then ([], [''.'']) else ([], [])),
      Dir := (\<lambda>p. if p = ''src/*/a.go'' then ''src/*''
                 else if p = ''src/*'' \<or> p = ''src/x'' then ''src'' else ''.'')\<rparr>"


section \<open>Signed 64-bit arithmetic without overflow\<close>

lemma sint_sub_nonneg:
  fixes a b :: int64
  assumes "0 \<le> sint a" and "0 \<le> sint b"
  shows "sint (a - b) = sint a - sint b"
proof -
  have "sint a < 2 ^ 63" "sint b < 2 ^ 63"
    using sint_lt [of a] sint_lt [of b] by simp_all
  with assms have "- (2 ^ 63) \<le> sint a - sint b" "sint a - sint b < 2 ^ 63"
    by simp_all
  then have "signed_take_bit 63 (sint a - sint b) = sint a - sint b"
    by (rule signed_take_bit_int_eq_self)
  then show ?thesis by (simp add: sint_word_ariths)
qed

lemma sint_ms_to_ns:
  fixes P :: int64
  assumes "- 9223372036854 \<le> sint P" and "sint P \<le> 9223372036854"
  shows "sint (P * 1000000) = sint P * 1000000"
proof -
  have "- (2 ^ 63) \<le> sint P * 1000000" "sint P * 1000000 < 2 ^ 63"
    using assms by simp_all
  then have "signed_take_bit 63 (sint P * 1000000) = sint P * 1000000"
    by (rule signed_take_bit_int_eq_self)
  moreover have "sint (1000000 :: int64) = 1000000" by simp
  ultimately show ?thesis by (simp add: sint_word_ariths)
qed

section \<open>The Event Normalizer\<close>

lemma wait_step_write_create:
  assumes "rawOp event = Write \<or> rawOp event = Create \<and> detectCreate n"
    and "IsFile w (Clean w (rawName event))"
  shows "snd (wait_step w event True n) = None \<longleftrightarrow>
     (GetFileModifiedTime w (Clean w (rawName event)) - times_get (times n) (Clean w (rawName event)))
       <s (pendingPeriod n * 1000000)"
  using assms
  by (auto simp: wait_step_def shouldExecute_def Let_def Write_def Create_def Rename_def)

lemma wait_step_rename:
  assumes "rawOp event = Rename"
    and "IsFile w (Clean w (rawName event))"
  shows "snd (wait_step w event True n) = None \<longleftrightarrow>
     (regardRenameAsModPeriod n * 1000000) <s (NowCheck w - GetFileModifiedTime w (Clean w (rawName event)))"
  using assms
  by (auto simp: wait_step_def shouldExecute_def Let_def Write_def Create_def Rename_def)

lemma wait_step_accept:
  assumes "wait_step w event ok n = (n', Some ev)"
  shows "ok \<and> shouldExecute w n (Clean w (rawName event)) (rawOp event)
       \<and> times n' = (times n)(Clean w (rawName event) \<mapsto> NowAccept w)
       \<and> ev = \<lparr>Name = Clean w (rawName event), Time = NowAccept w\<rparr>"
  using assms
  by (auto simp: wait_step_def shouldExecute_def Let_def split: if_splits)

lemma wait_step_reject:
  assumes "wait_step w event ok n = (n', None)"
  shows "times n' = times n"
  using assms
  by (auto simp: wait_step_def Let_def split: if_splits)

lemma shouldExecute_IsFile: "shouldExecute w n p op \<Longrightarrow> IsFile w p"
  by (auto simp: shouldExecute_def Let_def split: if_splits)

lemma wait_step_times:
  "times (fst (wait_step w event ok n)) = times n
   \<or> times (fst (wait_step w event ok n)) = (times n)(Clean w (rawName event) \<mapsto> NowAccept w)"
  by (auto simp: wait_step_def Let_def)

lemma wait_step_mono:
  assumes "\<forall>p. times_get (times n) p \<le>s t" and "t \<le>s NowAccept w"
  shows "times_get (times n) p \<le>s times_get (times (fst (wait_step w event ok n))) p"
    and "times_get (times (fst (wait_step w event ok n))) p \<le>s NowAccept w"
proof -
  have b: "times_get (times n) q \<le>s NowAccept w" for q
    using assms signed.order_trans by blast
  from wait_step_times [of w event ok n]
  show "times_get (times n) p \<le>s times_get (times (fst (wait_step w event ok n))) p"
    using b [of p] by (auto simp: times_get_def)
  from wait_step_times [of w event ok n]
  show "times_get (times (fst (wait_step w event ok n))) p \<le>s NowAccept w"
    using b [of p] by (auto simp: times_get_def)
qed

lemma wait_run_mono:
  assumes "\<forall>p. times_get (times n) p \<le>s t" and "clock_from t evs"
  shows "(\<forall>p. times_get (times n) p \<le>s times_get (times (fst (wait_run evs n))) p)
       \<and> (\<forall>p. times_get (times (fst (wait_run evs n))) p \<le>s clock_end t evs)"
  using assms
proof (induction evs arbitrary: n t)
  case Nil
  then show ?case by simp
next
  case (Cons x evs)
  obtain w event ok where x: "x = (w, event, ok)" by (cases x)
  let ?n1 = "fst (wait_step w event ok n)"
  from Cons.prems x have t: "t \<le>s NowAccept w" and c: "clock_from (NowAccept w) evs"
    by simp_all
  have m1: "\<forall>p. times_get (times n) p \<le>s times_get (times ?n1) p"
    and b1: "\<forall>p. times_get (times ?n1) p \<le>s NowAccept w"
    using wait_step_mono [OF Cons.prems(1) t] by blast+
  from Cons.IH [OF b1 c]
  have m2: "\<forall>p. times_get (times ?n1) p \<le>s times_get (times (fst (wait_run evs ?n1))) p"
    and b2: "\<forall>p. times_get (times (fst (wait_run evs ?n1))) p \<le>s clock_end (NowAccept w) evs"
    by blast+
  have r: "fst (wait_run (x # evs) n) = fst (wait_run evs ?n1)"
    by (simp add: x split: prod.splits)
  show ?case
    unfolding r using m1 m2 b2 signed.order_trans by (auto simp: x) blast
qed

lemma fst_wait_run_Cons:
  "fst (wait_run ((w, event, ok) # rest) n) = fst (wait_run rest (fst (wait_step w event ok n)))"
  by (simp split: prod.splits)

lemma wait_run_append:
  "fst (wait_run (xs @ ys) n) = fst (wait_run ys (fst (wait_run xs n)))"
proof (induction xs arbitrary: n)
  case Nil
  then show ?case by simp
next
  case (Cons x xs)
  obtain w event ok where x: "x = (w, event, ok)" by (cases x)
  show ?case
    unfolding x append_Cons fst_wait_run_Cons by (rule Cons.IH)
qed

lemma clock_from_append:
  "clock_from t (xs @ ys) = (clock_from t xs \<and> clock_from (clock_end t xs) ys)"
  by (induction xs arbitrary: t) auto

lemma wait_run_events:
  "ev \<in> set (snd (wait_run evs n)) \<Longrightarrow>
   list_ex (\<lambda>(w, event, ok). Name ev = Clean w (rawName event) \<and> IsFile w (Name ev)) evs"
proof (induction evs arbitrary: n)
  case Nil
  then show ?case by simp
next
  case (Cons x evs)
  obtain w event ok where x: "x = (w, event, ok)" by (cases x)
  obtain n1 out where s: "wait_step w event ok n = (n1, out)" by (cases "wait_step w event ok n")
  obtain n2 outs where r: "wait_run evs n1 = (n2, outs)" by (cases "wait_run evs n1")
  from Cons.prems have "ev \<in> set (case out of None \<Rightarrow> [] | Some e \<Rightarrow> [e]) \<or> ev \<in> set outs"
    by (simp add: x s r)
  then show ?case
  proof
    assume "ev \<in> set (case out of None \<Rightarrow> [] | Some e \<Rightarrow> [e])"
    then have "out = Some ev" by (cases out) auto
    with s wait_step_accept [of w event ok n n1 ev] shouldExecute_IsFile
    show ?thesis by (auto simp: x)
  next
    assume "ev \<in> set outs"
    with Cons.IH [of n1] r show ?thesis by (simp add: x)
  qed
qed

lemma wait_step_fields:
  "pendingPeriod (fst (wait_step w event ok n)) = pendingPeriod n"
  "regardRenameAsModPeriod (fst (wait_step w event ok n)) = regardRenameAsModPeriod n"
  "detectCreate (fst (wait_step w event ok n)) = detectCreate n"
  by (auto simp: wait_step_def Let_def)

lemma New_defaults:
  assumes "fst (New w pats maxWatchDirs) = Inr n"
  shows "pendingPeriod n = 100" and "regardRenameAsModPeriod n = 1000" and "detectCreate n"
    and "times n = Map.empty"
  using assms by (auto simp: New_def Let_def split: option.splits if_splits)

lemma two_writes:
  fixes n :: Notify
  defines "P \<equiv> sint (pendingPeriod n) * 1000000"
  assumes op1: "rawOp e1 = Write \<or> rawOp e1 = Create \<and> detectCreate n"
    and op2: "rawOp e2 = Write \<or> rawOp e2 = Create \<and> detectCreate n"
    and p1: "Clean w1 (rawName e1) = p" and p2: "Clean w2 (rawName e2) = p"
    and f1: "IsFile w1 p" and f2: "IsFile w2 p"
    and rng: "0 \<le> sint (pendingPeriod n)" "sint (pendingPeriod n) \<le> 9223372036854"
    and last: "0 \<le> sint (times_get (times n) p)"
    and first: "sint (times_get (times n) p) + P \<le> sint (GetFileModifiedTime w1 p)"
    and clock: "sint (GetFileModifiedTime w1 p) \<le> sint (NowAccept w1)"
    and m2: "0 \<le> sint (GetFileModifiedTime w2 p)"
    and within: "sint (GetFileModifiedTime w2 p) - sint (GetFileModifiedTime w1 p) < P"
  shows "snd (wait_run [(w1, e1, True), (w2, e2, True)] n) = [\<lparr>Name = p, Time = NowAccept w1\<rparr>]"
proof -
  let ?m1 = "GetFileModifiedTime w1 p" and ?m2 = "GetFileModifiedTime w2 p"
  let ?last = "times_get (times n) p" and ?t1 = "NowAccept w1"
  have Pw: "sint (pendingPeriod n * 1000000) = P"
    unfolding P_def using rng by (intro sint_ms_to_ns) simp_all
  have P0: "0 \<le> P" unfolding P_def using rng by simp
  have m1: "0 \<le> sint ?m1" using last first P0 by linarith
  have "sint (?m1 - ?last) = sint ?m1 - sint ?last"
    using m1 last by (rule sint_sub_nonneg)
  then have acc: "\<not> (?m1 - ?last) <s (pendingPeriod n * 1000000)"
    using first by (simp add: word_sless_alt Pw)
  have "snd (wait_step w1 e1 True n) \<noteq> None"
    using wait_step_write_create [of e1 n w1] op1 f1 acc by (simp add: p1)
  then obtain n1 ev where s1: "wait_step w1 e1 True n = (n1, Some ev)"
    by (cases "wait_step w1 e1 True n") auto
  from wait_step_accept [OF s1] have t1: "times n1 = (times n)(p \<mapsto> ?t1)"
    and ev: "ev = \<lparr>Name = p, Time = ?t1\<rparr>" by (simp_all add: p1)
  have n1: "n1 = fst (wait_step w1 e1 True n)" by (simp add: s1)
  have pp: "pendingPeriod n1 = pendingPeriod n" and dc: "detectCreate n1 = detectCreate n"
    unfolding n1 by (rule wait_step_fields)+
  have l1: "times_get (times n1) p = ?t1" by (simp add: t1 times_get_def)
  have "0 \<le> sint ?t1" using m1 clock by linarith
  with m2 have "sint (?m2 - ?t1) = sint ?m2 - sint ?t1" by (rule sint_sub_nonneg)
  then have rej: "(?m2 - times_get (times n1) p) <s (pendingPeriod n1 * 1000000)"
    using within clock by (simp add: word_sless_alt Pw l1 pp)
  have "snd (wait_step w2 e2 True n1) = None"
    using wait_step_write_create [of e2 n1 w2] op2 f2 rej by (simp add: p2 dc)
  then obtain n2 where s2: "wait_step w2 e2 True n1 = (n2, None)"
    by (cases "wait_step w2 e2 True n1") auto
  show ?thesis by (simp add: s1 s2 ev)
qed

text \<open>
  C1. A raw write event, or a raw create event while create detection is on, whose
  normalized path \<open>p\<close> is a regular file is rejected exactly when the modification time of
  the file minus the stored \<^verbatim>\<open>lastExecutionTime\<close> of \<open>p\<close> is less than \<^verbatim>\<open>pendingPeriod\<close>
  times 1000000, the period in nanoseconds: first in the 64-bit arithmetic of the code,
  then on the integers when the two timestamps are not negative and the period does not
  overflow. A notifier made by \<^verbatim>\<open>New\<close> has the period 100 ms, 100000000 ns. Consequently,
  of two writes of one file whose modification times are less than the period apart, the
  first accepted and handled at a clock reading not before its modification time, exactly
  one logical event is sent: that of the first write.
\<close>

theorem pending_period_coalesces_writes:
  fixes n :: Notify and w1 w2 :: World and e1 e2 :: RawEvent
  defines "p \<equiv> Clean w1 (rawName e1)"
    and "P \<equiv> sint (pendingPeriod n) * 1000000"
  defines "m1 \<equiv> GetFileModifiedTime w1 p"
    and "m2 \<equiv> GetFileModifiedTime w2 p"
    and "lastT \<equiv> times_get (times n) p"
  assumes op1: "rawOp e1 = Write \<or> rawOp e1 = Create \<and> detectCreate n"
    and f1: "IsFile w1 p"
  shows "((snd (wait_step w1 e1 True n) = None) = ((m1 - lastT) <s (pendingPeriod n * 1000000)))
    \<and> (0 \<le> sint lastT \<and> 0 \<le> sint m1 \<and> \<bar>sint (pendingPeriod n)\<bar> \<le> 9223372036854
         \<longrightarrow> (snd (wait_step w1 e1 True n) = None) = (sint m1 - sint lastT < P))
    \<and> (fst (New w0 pats maxWatchDirs) = Inr n \<longrightarrow> pendingPeriod n * 1000000 = 100000000)
    \<and> ((rawOp e2 = Write \<or> rawOp e2 = Create \<and> detectCreate n)
         \<and> Clean w2 (rawName e2) = p \<and> IsFile w2 p
         \<and> 0 \<le> sint (pendingPeriod n) \<and> sint (pendingPeriod n) \<le> 9223372036854
         \<and> 0 \<le> sint lastT \<and> sint lastT + P \<le> sint m1 \<and> sint m1 \<le> sint (NowAccept w1)
         \<and> 0 \<le> sint m2 \<and> sint m2 - sint m1 < P
         \<longrightarrow> snd (wait_run [(w1, e1, True), (w2, e2, True)] n) = [\<lparr>Name = p, Time = NowAccept w1\<rparr>])"
proof (intro conjI impI)
  show a: "(snd (wait_step w1 e1 True n) = None) = ((m1 - lastT) <s (pendingPeriod n * 1000000))"
    unfolding m1_def lastT_def p_def
    using op1 f1 [unfolded p_def] by (rule wait_step_write_create)
  show "(snd (wait_step w1 e1 True n) = None) = (sint m1 - sint lastT < P)"
    if "0 \<le> sint lastT \<and> 0 \<le> sint m1 \<and> \<bar>sint (pendingPeriod n)\<bar> \<le> 9223372036854"
  proof -
    from that have "sint (m1 - lastT) = sint m1 - sint lastT"
      by (intro sint_sub_nonneg) simp_all
    moreover from that have "sint (pendingPeriod n * 1000000) = P"
      unfolding P_def by (intro sint_ms_to_ns) linarith+
    ultimately show ?thesis by (simp add: a word_sless_alt)
  qed
  show "pendingPeriod n * 1000000 = 100000000" if "fst (New w0 pats maxWatchDirs) = Inr n"
    using New_defaults(1) [OF that] by simp
  show "snd (wait_run [(w1, e1, True), (w2, e2, True)] n) = [\<lparr>Name = p, Time = NowAccept w1\<rparr>]"
    if h: "(rawOp e2 = Write \<or> rawOp e2 = Create \<and> detectCreate n)
         \<and> Clean w2 (rawName e2) = p \<and> IsFile w2 p
         \<and> 0 \<le> sint (pendingPeriod n) \<and> sint (pendingPeriod n) \<le> 9223372036854
         \<and> 0 \<le> sint lastT \<and> sint lastT + P \<le> sint m1 \<and> sint m1 \<le> sint (NowAccept w1)
         \<and> 0 \<le> sint m2 \<and> sint m2 - sint m1 < P"
    using op1 f1 h unfolding m1_def m2_def lastT_def P_def
    by (intro two_writes [where ?w2.0 = w2 and ?e2.0 = e2]) (simp_all add: p_def)
qed

theorem pending_period_coalesces_writes_witness:
  "snd (wait_step (demo_world 1700000000000000000 1700000000001000000) (demo_raw Write) True demo_notify) \<noteq> None
   \<and> fst (New (demo_world 0 0) [''src/*.txt''] 10) = Inr demo_notify
   \<and> snd (wait_run [(demo_world 1700000000000000000 1700000000001000000, demo_raw Write, True),
                    (demo_world 1700000000050000000 1700000000051000000, demo_raw Write, True)]
          demo_notify)
     = [\<lparr>Name = ''src/a.txt'', Time = 1700000000001000000\<rparr>]"
proof -
  let ?w1 = "demo_world 1700000000000000000 1700000000001000000"
  let ?w2 = "demo_world 1700000000050000000 1700000000051000000"
  have op: "rawOp (demo_raw Write) = Write \<or> rawOp (demo_raw Write) = Create \<and> detectCreate demo_notify"
    by (simp add: demo_raw_def)
  have f: "IsFile ?w1 (Clean ?w1 (rawName (demo_raw Write)))"
    by (simp add: demo_raw_def demo_world_def)
  have new: "fst (New (demo_world 0 0) [''src/*.txt''] 10) = Inr demo_notify"
    by (simp add: New_def findDirs_def findRealDirectory_def Let_def demo_world_def demo_notify_def
        uniq_Add_def ToSlash_def hasGlob_def trim_suffix_def)
  from pending_period_coalesces_writes [OF op f, where ?w0.0 = "demo_world 0 0"
      and pats = "[''src/*.txt'']" and maxWatchDirs = 10 and ?e2.0 = "demo_raw Write" and ?w2.0 = ?w2]
  show ?thesis
    using new by (simp add: demo_raw_def demo_world_def demo_notify_def times_get_def)
qed

text \<open>
  C2. A raw rename event whose normalized path \<open>p\<close> is a regular file is rejected exactly
  when the clock reading minus the modification time of the file is greater than
  \<^verbatim>\<open>regardRenameAsModPeriod\<close> times 1000000, the period in nanoseconds (1000 ms, 1000000000 ns,
  for a notifier made by \<^verbatim>\<open>New\<close>): first in the 64-bit arithmetic of the code, then on the
  integers when the two timestamps are not negative and the period does not overflow.
  There, a rename within the period of the last write sends exactly one logical event,
  and a rename of a file untouched for longer sends none.
\<close>

theorem rename_window:
  fixes n :: Notify and w :: World and e :: RawEvent
  defines "p \<equiv> Clean w (rawName e)"
    and "R \<equiv> sint (regardRenameAsModPeriod n) * 1000000"
  defines "m \<equiv> GetFileModifiedTime w p"
  assumes op: "rawOp e = Rename"
    and f: "IsFile w p"
  shows "((snd (wait_step w e True n) = None)
            = ((regardRenameAsModPeriod n * 1000000) <s (NowCheck w - m)))
    \<and> (fst (New w0 pats maxWatchDirs) = Inr n \<longrightarrow> regardRenameAsModPeriod n * 1000000 = 1000000000)
    \<and> (0 \<le> sint m \<and> 0 \<le> sint (NowCheck w) \<and> \<bar>sint (regardRenameAsModPeriod n)\<bar> \<le> 9223372036854
         \<longrightarrow> ((snd (wait_step w e True n) = None) = (R < sint (NowCheck w) - sint m))
           \<and> (sint (NowCheck w) - sint m \<le> R
                \<longrightarrow> snd (wait_run [(w, e, True)] n) = [\<lparr>Name = p, Time = NowAccept w\<rparr>])
           \<and> (R < sint (NowCheck w) - sint m \<longrightarrow> snd (wait_run [(w, e, True)] n) = []))"
proof (intro conjI impI)
  show a: "(snd (wait_step w e True n) = None)
      = ((regardRenameAsModPeriod n * 1000000) <s (NowCheck w - m))"
    unfolding m_def p_def using op f [unfolded p_def] by (rule wait_step_rename)
  show "regardRenameAsModPeriod n * 1000000 = 1000000000" if "fst (New w0 pats maxWatchDirs) = Inr n"
    using New_defaults(2) [OF that] by simp
  assume rng: "0 \<le> sint m \<and> 0 \<le> sint (NowCheck w) \<and> \<bar>sint (regardRenameAsModPeriod n)\<bar> \<le> 9223372036854"
  then have "sint (NowCheck w - m) = sint (NowCheck w) - sint m"
    by (intro sint_sub_nonneg) simp_all
  moreover from rng have "sint (regardRenameAsModPeriod n * 1000000) = R"
    unfolding R_def by (intro sint_ms_to_ns) linarith+
  ultimately show b: "(snd (wait_step w e True n) = None) = (R < sint (NowCheck w) - sint m)"
    by (simp add: a word_sless_alt)
  show "snd (wait_run [(w, e, True)] n) = [\<lparr>Name = p, Time = NowAccept w\<rparr>]"
    if "sint (NowCheck w) - sint m \<le> R"
  proof -
    from that b have "snd (wait_step w e True n) \<noteq> None" by simp
    then obtain n1 ev where s: "wait_step w e True n = (n1, Some ev)"
      by (cases "wait_step w e True n") auto
    from wait_step_accept [OF s] show ?thesis by (simp add: s p_def)
  qed
  show "snd (wait_run [(w, e, True)] n) = []" if "R < sint (NowCheck w) - sint m"
  proof -
    from that b have "snd (wait_step w e True n) = None" by simp
    then obtain n1 where s: "wait_step w e True n = (n1, None)"
      by (cases "wait_step w e True n") auto
    then show ?thesis by simp
  qed
qed

theorem rename_window_witness:
  "fst (New (demo_world 0 0) [''src/*.txt''] 10) = Inr demo_notify
   \<and> snd (wait_run [(demo_world 1700000000000000000 1700000000900000000, demo_raw Rename, True)]
          demo_notify)
     = [\<lparr>Name = ''src/a.txt'', Time = 1700000000900000000\<rparr>]
   \<and> snd (wait_run [(demo_world 1700000000000000000 1700000002000000000, demo_raw Rename, True)]
          demo_notify) = []"
proof -
  let ?w1 = "demo_world 1700000000000000000 1700000000900000000"
  let ?w2 = "demo_world 1700000000000000000 1700000002000000000"
  have op: "rawOp (demo_raw Rename) = Rename"
    by (simp add: demo_raw_def)
  have f1: "IsFile ?w1 (Clean ?w1 (rawName (demo_raw Rename)))"
    and f2: "IsFile ?w2 (Clean ?w2 (rawName (demo_raw Rename)))"
    by (simp_all add: demo_raw_def demo_world_def)
  have new: "fst (New (demo_world 0 0) [''src/*.txt''] 10) = Inr demo_notify"
    by (simp add: New_def findDirs_def findRealDirectory_def Let_def demo_world_def demo_notify_def
        uniq_Add_def ToSlash_def hasGlob_def trim_suffix_def)
  from rename_window [OF op f1, where n = demo_notify and ?w0.0 = "demo_world 0 0"
      and pats = "[''src/*.txt'']" and maxWatchDirs = 10]
    rename_window [OF op f2, where n = demo_notify and ?w0.0 = "demo_world 0 0"
      and pats = "[''src/*.txt'']" and maxWatchDirs = 10]
  show ?thesis
    using new by (simp add: demo_raw_def demo_world_def demo_notify_def)
qed

lemma snd_wait_run_single:
  "snd (wait_run [(w, e, ok)] n) = (case snd (wait_step w e ok n) of None \<Rightarrow> [] | Some ev \<Rightarrow> [ev])"
  by (simp split: prod.splits)

text \<open>
  C8. A raw event sends a logical event only when its normalized path is a regular file in
  the world the event is handled in: a path that is a directory, is deleted or is no
  regular file for another reason is rejected. Along a run, every logical event sent
  carries the normalized path of a raw event of the run, a regular file when that event
  was handled.
\<close>

theorem logical_event_only_for_regular_file:
  "(snd (wait_step w e ok n) \<noteq> None \<longrightarrow> IsFile w (Clean w (rawName e)))
   \<and> (\<not> IsFile w (Clean w (rawName e)) \<longrightarrow> snd (wait_step w e ok n) = None)
   \<and> (\<forall>ev \<in> set (snd (wait_run evs n)).
        list_ex (\<lambda>(w, event, ok). Name ev = Clean w (rawName event) \<and> IsFile w (Name ev)) evs)"
proof -
  have a: "IsFile w (Clean w (rawName e))" if "snd (wait_step w e ok n) \<noteq> None"
  proof -
    from that obtain n1 ev where "wait_step w e ok n = (n1, Some ev)"
      by (cases "wait_step w e ok n") auto
    from wait_step_accept [OF this] show ?thesis
      by (auto dest: shouldExecute_IsFile)
  qed
  then show ?thesis using wait_run_events [of _ evs n] by blast
qed

theorem logical_event_only_for_regular_file_witness:
  "snd (wait_step (demo_world 1700000000000000000 1700000000001000000) (demo_raw Write) True demo_notify)
     = Some \<lparr>Name = ''src/a.txt'', Time = 1700000000001000000\<rparr>
   \<and> IsFile (demo_world 1700000000000000000 1700000000001000000) ''src/a.txt''
   \<and> \<not> IsFile demo_dir_world ''src/a.txt''
   \<and> snd (wait_step demo_dir_world (demo_raw Create) True demo_notify) = None
   \<and> snd (wait_run [(demo_world 1700000000000000000 1700000000001000000, demo_raw Write, True)] demo_notify)
     = [\<lparr>Name = ''src/a.txt'', Time = 1700000000001000000\<rparr>]"
proof -
  let ?w = "demo_world 1700000000000000000 1700000000001000000"
  have s: "snd (wait_step ?w (demo_raw Write) True demo_notify)
     = Some \<lparr>Name = ''src/a.txt'', Time = 1700000000001000000\<rparr>"
    by (simp add: wait_step_def shouldExecute_def Let_def demo_world_def demo_raw_def
        demo_notify_def times_get_def Write_def Create_def Rename_def word_sless_alt)
  have d: "\<not> IsFile demo_dir_world (Clean demo_dir_world (rawName (demo_raw Create)))"
    by (simp add: demo_dir_world_def demo_world_def demo_raw_def)
  from logical_event_only_for_regular_file [of ?w "demo_raw Write" True demo_notify
      "[(?w, demo_raw Write, True)]"]
    logical_event_only_for_regular_file [of demo_dir_world "demo_raw Create" True demo_notify "[]"]
  show ?thesis using s d
    by (simp add: snd_wait_run_single del: wait_run.simps)
      (simp add: demo_raw_def demo_world_def demo_dir_world_def)
qed

text \<open>
  C9. An accepted raw event stores the clock reading as \<^verbatim>\<open>lastExecutionTime\<close> of its path,
  in one update that leaves every other path alone, and sends the logical event whose
  \<^verbatim>\<open>Time\<close> is that stored value; a rejected raw event leaves the map as it is. When the
  clock readings never go back along the run and start at or above every stored time,
  \<^verbatim>\<open>lastExecutionTime\<close> of every path never decreases from one point of the run to a later
  one.
\<close>

theorem lastExecutionTime_updates:
  "(wait_step w e ok n = (n', Some ev) \<longrightarrow>
      times n' = (times n)(Clean w (rawName e) \<mapsto> NowAccept w)
      \<and> ev = \<lparr>Name = Clean w (rawName e), Time = NowAccept w\<rparr>
      \<and> times_get (times n') (Name ev) = Time ev)
   \<and> (wait_step w e ok n = (n', None) \<longrightarrow> times n' = times n)
   \<and> ((\<forall>q. times_get (times n) q \<le>s t) \<and> clock_from t (xs @ ys) \<longrightarrow>
        times_get (times (fst (wait_run xs n))) p \<le>s times_get (times (fst (wait_run (xs @ ys) n))) p)"
proof (intro conjI impI)
  assume s: "wait_step w e ok n = (n', Some ev)"
  from wait_step_accept [OF s]
  show t: "times n' = (times n)(Clean w (rawName e) \<mapsto> NowAccept w)"
    and ev: "ev = \<lparr>Name = Clean w (rawName e), Time = NowAccept w\<rparr>"
    by simp_all
  show "times_get (times n') (Name ev) = Time ev"
    by (simp add: t ev times_get_def)
next
  assume "wait_step w e ok n = (n', None)"
  then show "times n' = times n" by (rule wait_step_reject)
next
  assume h: "(\<forall>q. times_get (times n) q \<le>s t) \<and> clock_from t (xs @ ys)"
  then have b: "\<forall>q. times_get (times n) q \<le>s t"
    and cx: "clock_from t xs" and cy: "clock_from (clock_end t xs) ys"
    by (simp_all add: clock_from_append)
  from wait_run_mono [OF b cx]
  have bx: "\<forall>q. times_get (times (fst (wait_run xs n))) q \<le>s clock_end t xs" by blast
  from wait_run_mono [OF bx cy]
  show "times_get (times (fst (wait_run xs n))) p \<le>s times_get (times (fst (wait_run (xs @ ys) n))) p"
    by (simp add: wait_run_append)
qed

theorem lastExecutionTime_updates_witness:
  "times (fst (wait_step (demo_world 1700000000000000000 1700000000001000000) (demo_raw Write) True demo_notify))
     = [''src/a.txt'' \<mapsto> 1700000000001000000]
   \<and> snd (wait_step (demo_world 1700000000000000000 1700000000001000000) (demo_raw Write) True demo_notify)
     = Some \<lparr>Name = ''src/a.txt'', Time = 1700000000001000000\<rparr>
   \<and> wait_step (demo_world 1700000000000000000 1700000000001000000) (demo_raw Chmod) True demo_notify
     = (demo_notify, None)
   \<and> clock_from 0 ([(demo_world 1700000000000000000 1700000000001000000, demo_raw Write, True)]
        @ [(demo_world 1700000000500000000 1700000000501000000, demo_raw Write, True)])
   \<and> times_get (times (fst (wait_run
        [(demo_world 1700000000000000000 1700000000001000000, demo_raw Write, True)] demo_notify))) ''src/a.txt''
     \<le>s times_get (times (fst (wait_run
        ([(demo_world 1700000000000000000 1700000000001000000, demo_raw Write, True)]
          @ [(demo_world 1700000000500000000 1700000000501000000, demo_raw Write, True)]) demo_notify))) ''src/a.txt''"
proof -
  let ?w1 = "demo_world 1700000000000000000 1700000000001000000"
  let ?w2 = "demo_world 1700000000500000000 1700000000501000000"
  let ?n1 = "demo_notify\<lparr>times := [''src/a.txt'' \<mapsto> 1700000000001000000]\<rparr>"
  let ?ev = "\<lparr>Name = ''src/a.txt'', Time = 1700000000001000000\<rparr>"
  have s: "wait_step ?w1 (demo_raw Write) True demo_notify = (?n1, Some ?ev)"
    by (simp add: wait_step_def shouldExecute_def Let_def demo_world_def demo_raw_def
        demo_notify_def times_get_def Write_def Create_def Rename_def word_sless_alt)
  have r: "wait_step ?w1 (demo_raw Chmod) True demo_notify = (demo_notify, None)"
    by (simp add: wait_step_def shouldExecute_def Let_def demo_world_def demo_raw_def
        demo_notify_def Write_def Create_def Rename_def Chmod_def)
  have b: "\<forall>q. times_get (times demo_notify) q \<le>s 0"
    by (simp add: demo_notify_def times_get_def)
  have c: "clock_from 0 ([(?w1, demo_raw Write, True)] @ [(?w2, demo_raw Write, True)])"
    by (simp add: demo_world_def word_sle_eq)
  note T1 = lastExecutionTime_updates [of ?w1 "demo_raw Write" True demo_notify ?n1 ?ev 0
      "[(?w1, demo_raw Write, True)]" "[(?w2, demo_raw Write, True)]" "''src/a.txt''"]
  have m: "times_get (times (fst (wait_run [(?w1, demo_raw Write, True)] demo_notify))) ''src/a.txt''
     \<le>s times_get (times (fst (wait_run
        ([(?w1, demo_raw Write, True)] @ [(?w2, demo_raw Write, True)]) demo_notify))) ''src/a.txt''"
    using T1 [THEN conjunct2, THEN conjunct2] b c by blast
  have u: "times ?n1 = (times demo_notify)(Clean ?w1 (rawName (demo_raw Write)) \<mapsto> NowAccept ?w1)"
    using T1 [THEN conjunct1] s by blast
  show ?thesis
  proof (intro conjI)
    show "times (fst (wait_step ?w1 (demo_raw Write) True demo_notify))
        = [''src/a.txt'' \<mapsto> 1700000000001000000]"
      using u by (simp add: s)
    show "snd (wait_step ?w1 (demo_raw Write) True demo_notify) = Some ?ev"
      by (simp add: s)
  qed (rule r c m)+
qed

section \<open>The Dispatcher\<close>

text \<open>
  The test \<^verbatim>\<open>event.Op|flag == 0\<close> of the loop is false for every operation, so the loop
  goes on to the pattern test whatever the operation is.
\<close>

lemma or_flag_nonzero: "or x (or Write Rename) \<noteq> (0 :: Op)"
proof
  assume "or x (or Write Rename) = 0"
  then have "or Write Rename = (0 :: Op)" by (simp add: or_eq_0_iff)
  then show False by (simp add: Write_def Rename_def)
qed

lemma matchAny_iff: "matchAny w fs s = list_ex (\<lambda>f. GlobMatch w f s) fs"
  by (induction fs) auto

lemma handle_event_unfold:
  "handle_event w Match commands timeout restart event ok s =
     (if \<not> matchAny w (patterns (gazer s)) (Name event) then s
      else if (GetFileModifiedTime w (Name event) - lastExecutionTime s) <s ignorePeriod then s
      else
        let s1 = s\<lparr>gazer := (gazer s)\<lparr>counter := counter (gazer s) + 1\<rparr>\<rparr>;
            commandString = getAppropriateCommand w Match (Name event) commands
        in if commandString = [] then s1
           else
             let s2 = (case ongoingCommand s1 of
                         Some c \<Rightarrow> s1\<lparr>ongoingCommand := None, actions := actions s1 @ [Kill c]\<rparr>
                       | None \<Rightarrow> s1);
                 s3 = s2\<lparr>lastExecutionTime := NowDispatch w\<rparr>
             in if \<not> restart
                then s3\<lparr>actions := actions s3 @ [Execute commandString timeout]\<rparr>
                else s3\<lparr>ongoingCommand := Some commandString,
                        actions := actions s3 @ [Spawn commandString timeout]\<rparr>)"
  unfolding handle_event_def Let_def using or_flag_nonzero by simp

text \<open>An event whose path matches none of the watch patterns is ignored.\<close>

lemma handle_event_no_pattern:
  "\<not> list_ex (\<lambda>f. GlobMatch w f (Name event)) (patterns (gazer s)) \<Longrightarrow>
     handle_event w Match commands timeout restart event ok s = s"
  by (simp add: handle_event_unfold matchAny_iff)

lemma handle_event_counter:
  "counter (gazer (handle_event w Match commands timeout restart event ok s)) =
     (if matchAny w (patterns (gazer s)) (Name event)
         \<and> \<not> (GetFileModifiedTime w (Name event) - lastExecutionTime s) <s ignorePeriod
      then counter (gazer s) + 1 else counter (gazer s))"
  by (simp add: handle_event_unfold Let_def split: option.splits)

lemma handle_event_lastExecutionTime:
  "lastExecutionTime (handle_event w Match commands timeout restart event ok s) =
     (if matchAny w (patterns (gazer s)) (Name event)
         \<and> \<not> (GetFileModifiedTime w (Name event) - lastExecutionTime s) <s ignorePeriod
         \<and> getAppropriateCommand w Match (Name event) commands \<noteq> []
      then NowDispatch w else lastExecutionTime s)"
  by (simp add: handle_event_unfold Let_def split: option.splits)

lemma getAppropriateCommand_find:
  "getAppropriateCommand w Match filePath commands =
     (case List.find (\<lambda>c. Match c filePath)
             (filter (\<lambda>c. \<not> (Run c = [] \<or> Ext c = [] \<and> Re c = [])) commands) of
        None \<Rightarrow> []
      | Some c \<Rightarrow> render w (Run c) filePath)"
  by (induction commands) auto

lemma demo_command_a:
  "getAppropriateCommand (demo_files m t) demo_Match ''src/a.txt'' demo_commands = ''echo src/a.txt''"
  by (simp add: demo_files_def demo_world_def demo_Match_def demo_commands_def)

lemma demo_command_b:
  "getAppropriateCommand (demo_files m t) demo_Match ''src/b.txt'' demo_commands = ''echo src/b.txt''"
  by (simp add: demo_files_def demo_world_def demo_Match_def demo_commands_def)


lemma demo_matchAny:
  "matchAny (demo_files m t) [''src/*.txt''] ''src/a.txt''"
  "matchAny (demo_files m t) [''src/*.txt''] ''src/b.txt''"
  by (simp_all add: demo_files_def demo_world_def)

lemma demo_GlobMatch:
  "GlobMatch (demo_files m t) ''src/*.txt'' ''src/a.txt''"
  "GlobMatch (demo_files m t) ''src/*.txt'' ''src/b.txt''"
  by (simp_all add: demo_files_def demo_world_def)

lemma demo_fields:
  "GetFileModifiedTime (demo_files m t) p = m"
  "NowDispatch (demo_files m t) = t"
  by (simp_all add: demo_files_def demo_world_def)

lemma demo_first_dispatch:
  "handle_event (demo_files 1700000000000000000 1700000000001000000) demo_Match demo_commands 0 False
     (demo_event ''src/a.txt'' op) True (loop_start demo_gazer)
   = \<lparr>gazer = demo_gazer\<lparr>counter := 1\<rparr>, lastExecutionTime = 1700000000001000000,
      ongoingCommand = None, actions = [Execute ''echo src/a.txt'' 0]\<rparr>"
  by (simp add: handle_event_unfold Let_def demo_command_a demo_GlobMatch demo_fields
      loop_start_def demo_gazer_def demo_event_def ignorePeriod_def word_sless_alt)

text \<open>
  C3. The claim says that the Dispatcher ignores an event whose operation is neither write
  nor rename. The test of the code is \<^verbatim>\<open>event.Op|flag == 0\<close> with
  \<^verbatim>\<open>flag = Write|Rename\<close>, which no operation satisfies: an event of a create operation on a
  file that matches the pattern and a rule is counted and its command is run, and the
  operation of an event never changes what the Dispatcher does.
\<close>

theorem op_filter_never_fires:
  "Create \<noteq> Write \<and> Create \<noteq> Rename
   \<and> handle_event (demo_files 1700000000000000000 1700000000001000000) demo_Match demo_commands 0 False
       (demo_event ''src/a.txt'' Create) True (loop_start demo_gazer)
     = \<lparr>gazer = demo_gazer\<lparr>counter := 1\<rparr>, lastExecutionTime = 1700000000001000000,
        ongoingCommand = None, actions = [Execute ''echo src/a.txt'' 0]\<rparr>
   \<and> handle_event w Match commands timeout restart (event\<lparr>Op := op\<rparr>) ok s
     = handle_event w Match commands timeout restart event ok s"
  by (simp add: demo_first_dispatch Create_def Write_def Rename_def)
    (simp add: handle_event_unfold)




text \<open>
  C6, as stated, fails: after the dispatch for \<^verbatim>\<open>src/a.txt\<close> at clock reading t, the event
  for the other path \<^verbatim>\<open>src/b.txt\<close>, modified 2 ms after t, is suppressed; the same event
  in the state before that dispatch runs its command.
\<close>

theorem debounce_per_path_counterexample:
  "''src/a.txt'' \<noteq> ''src/b.txt''
   \<and> handle_events demo_Match demo_commands 0 False
       [(demo_files 1700000000000000000 1700000000001000000, demo_event ''src/a.txt'' Write, True),
        (demo_files 1700000000003000000 1700000000004000000, demo_event ''src/b.txt'' Write, True)]
       (loop_start demo_gazer)
     = \<lparr>gazer = demo_gazer\<lparr>counter := 1\<rparr>, lastExecutionTime = 1700000000001000000,
        ongoingCommand = None, actions = [Execute ''echo src/a.txt'' 0]\<rparr>
   \<and> handle_events demo_Match demo_commands 0 False
       [(demo_files 1700000000003000000 1700000000004000000, demo_event ''src/b.txt'' Write, True)]
       (loop_start demo_gazer)
     = \<lparr>gazer = demo_gazer\<lparr>counter := 1\<rparr>, lastExecutionTime = 1700000000004000000,
        ongoingCommand = None, actions = [Execute ''echo src/b.txt'' 0]\<rparr>"
proof -
  have "handle_event (demo_files 1700000000003000000 1700000000004000000) demo_Match demo_commands 0 False
      (demo_event ''src/b.txt'' Write) True
      \<lparr>gazer = demo_gazer\<lparr>counter := 1\<rparr>, lastExecutionTime = 1700000000001000000,
        ongoingCommand = None, actions = [Execute ''echo src/a.txt'' 0]\<rparr>
    = \<lparr>gazer = demo_gazer\<lparr>counter := 1\<rparr>, lastExecutionTime = 1700000000001000000,
        ongoingCommand = None, actions = [Execute ''echo src/a.txt'' 0]\<rparr>"
    by (simp add: handle_event_unfold demo_GlobMatch demo_fields demo_gazer_def demo_event_def
        ignorePeriod_def word_sless_alt)
  moreover have "handle_event (demo_files 1700000000003000000 1700000000004000000) demo_Match demo_commands 0 False
      (demo_event ''src/b.txt'' Write) True (loop_start demo_gazer)
    = \<lparr>gazer = demo_gazer\<lparr>counter := 1\<rparr>, lastExecutionTime = 1700000000004000000,
        ongoingCommand = None, actions = [Execute ''echo src/b.txt'' 0]\<rparr>"
    by (simp add: handle_event_unfold Let_def demo_command_b demo_GlobMatch demo_fields
      loop_start_def demo_gazer_def demo_event_def ignorePeriod_def word_sless_alt)
  ultimately show ?thesis by (simp add: demo_first_dispatch)
qed

text \<open>
  C6, amended. The debounce state of the Dispatcher is one timestamp, shared by all
  paths: an event that matches a watch pattern is ignored (the state stays as it is)
  exactly when the modification time of its file minus that timestamp is less than
  10 ms (10000000 ns), whatever path the timestamp comes from; the timestamp becomes the
  clock reading exactly when a command is started.
\<close>

theorem debounce_is_one_timestamp:
  "(matchAny w (patterns (gazer s)) (Name event) \<longrightarrow>
      (handle_event w Match commands timeout restart event ok s = s)
        = ((GetFileModifiedTime w (Name event) - lastExecutionTime s) <s ignorePeriod))
   \<and> lastExecutionTime (handle_event w Match commands timeout restart event ok s) =
       (if matchAny w (patterns (gazer s)) (Name event)
           \<and> \<not> (GetFileModifiedTime w (Name event) - lastExecutionTime s) <s ignorePeriod
           \<and> getAppropriateCommand w Match (Name event) commands \<noteq> []
        then NowDispatch w else lastExecutionTime s)
   \<and> ignorePeriod = 10000000"
proof (intro conjI impI)
  assume m: "matchAny w (patterns (gazer s)) (Name event)"
  show "(handle_event w Match commands timeout restart event ok s = s)
        = ((GetFileModifiedTime w (Name event) - lastExecutionTime s) <s ignorePeriod)"
  proof (cases "(GetFileModifiedTime w (Name event) - lastExecutionTime s) <s ignorePeriod")
    case True
    then show ?thesis by (simp add: handle_event_unfold m)
  next
    case False
    with m have "counter (gazer (handle_event w Match commands timeout restart event ok s))
        = counter (gazer s) + 1"
      by (simp add: handle_event_counter)
    then have "handle_event w Match commands timeout restart event ok s \<noteq> s"
      by auto
    with False show ?thesis by simp
  qed
next
  show "lastExecutionTime (handle_event w Match commands timeout restart event ok s) =
       (if matchAny w (patterns (gazer s)) (Name event)
           \<and> \<not> (GetFileModifiedTime w (Name event) - lastExecutionTime s) <s ignorePeriod
           \<and> getAppropriateCommand w Match (Name event) commands \<noteq> []
        then NowDispatch w else lastExecutionTime s)"
    by (rule handle_event_lastExecutionTime)
  show "ignorePeriod = 10000000" by (simp add: ignorePeriod_def)
qed

theorem debounce_is_one_timestamp_witness:
  "matchAny (demo_files 1700000000003000000 1700000000004000000) [''src/*.txt''] ''src/b.txt''
   \<and> handle_event (demo_files 1700000000003000000 1700000000004000000) demo_Match demo_commands 0 False
      (demo_event ''src/b.txt'' Write) True
      \<lparr>gazer = demo_gazer\<lparr>counter := 1\<rparr>, lastExecutionTime = 1700000000001000000,
        ongoingCommand = None, actions = [Execute ''echo src/a.txt'' 0]\<rparr>
    = \<lparr>gazer = demo_gazer\<lparr>counter := 1\<rparr>, lastExecutionTime = 1700000000001000000,
        ongoingCommand = None, actions = [Execute ''echo src/a.txt'' 0]\<rparr>"
proof -
  let ?w = "demo_files 1700000000003000000 1700000000004000000"
  let ?e = "demo_event ''src/b.txt'' Write"
  let ?s = "\<lparr>gazer = demo_gazer\<lparr>counter := 1\<rparr>, lastExecutionTime = 1700000000001000000,
        ongoingCommand = None, actions = [Execute ''echo src/a.txt'' 0]\<rparr>"
  have m: "matchAny ?w (patterns (gazer ?s)) (Name ?e)"
    by (simp add: demo_GlobMatch demo_gazer_def demo_event_def)
  have d: "(GetFileModifiedTime ?w (Name ?e) - lastExecutionTime ?s) <s ignorePeriod"
    by (simp add: demo_fields ignorePeriod_def word_sless_alt)
  from debounce_is_one_timestamp [of ?w ?s ?e demo_Match demo_commands 0 False True]
  have "handle_event ?w demo_Match demo_commands 0 False ?e True ?s = ?s"
    using m d by blast
  then show ?thesis by (simp add: demo_GlobMatch)
qed

text \<open>
  C10. \<^verbatim>\<open>getAppropriateCommand\<close> leaves out every rule whose run template is empty, or whose
  extension and regular expression are both empty, also when \<^verbatim>\<open>Match\<close> accepts the path
  for it; it returns the rendered run template of the first of the rules left that
  matches, and the empty string when there is none.
\<close>

theorem getAppropriateCommand_first_usable_match:
  "getAppropriateCommand w Match filePath commands =
     (case List.find (\<lambda>c. Match c filePath)
             (filter (\<lambda>c. \<not> (Run c = [] \<or> Ext c = [] \<and> Re c = [])) commands) of
        None \<Rightarrow> []
      | Some c \<Rightarrow> render w (Run c) filePath)
   \<and> (Run c = [] \<or> Ext c = [] \<and> Re c = [] \<longrightarrow>
        getAppropriateCommand w Match filePath (c # cs) = getAppropriateCommand w Match filePath cs)"
  by (simp add: getAppropriateCommand_find)

theorem getAppropriateCommand_first_usable_match_witness:
  "(\<lambda>c p. True) \<lparr>Ext = [], Re = [], Run = ''ls''\<rparr> ''src/a.txt''
   \<and> getAppropriateCommand (demo_world 0 0) (\<lambda>c p. True) ''src/a.txt''
       [\<lparr>Ext = [], Re = [], Run = ''ls''\<rparr>, \<lparr>Ext = ''.go'', Re = [], Run = []\<rparr>,
        \<lparr>Ext = [], Re = ''txt$'', Run = ''echo''\<rparr>, \<lparr>Ext = ''.txt'', Re = [], Run = ''cat''\<rparr>]
     = ''echo src/a.txt''
   \<and> getAppropriateCommand (demo_world 0 0) (\<lambda>c p. True) ''src/a.txt''
       [\<lparr>Ext = [], Re = [], Run = ''ls''\<rparr>] = []"
proof -
  have h: "Run \<lparr>Ext = [], Re = [], Run = ''ls''\<rparr> = [] \<or>
      Ext \<lparr>Ext = [], Re = [], Run = ''ls''\<rparr> = [] \<and> Re \<lparr>Ext = [], Re = [], Run = ''ls''\<rparr> = []"
    by simp
  from getAppropriateCommand_first_usable_match [of "demo_world 0 0" "\<lambda>c p. True" "''src/a.txt''"
      "[\<lparr>Ext = [], Re = [], Run = ''ls''\<rparr>, \<lparr>Ext = ''.go'', Re = [], Run = []\<rparr>,
        \<lparr>Ext = [], Re = ''txt$'', Run = ''echo''\<rparr>, \<lparr>Ext = ''.txt'', Re = [], Run = ''cat''\<rparr>]"
      "\<lparr>Ext = [], Re = [], Run = ''ls''\<rparr>" "[]"]
  show ?thesis using h by (simp add: demo_world_def)
qed

section \<open>The Directory Resolver and construction\<close>

lemma set_keep_first: "set (keep_first xs) = set xs"
  by (simp add: keep_first_def)

lemma distinct_keep_first: "distinct (keep_first xs)"
  by (simp add: keep_first_def)

lemma keep_first_snoc:
  "keep_first (ys @ [x]) = (if x \<in> set ys then keep_first ys else keep_first ys @ [x])"
  by (simp add: keep_first_def)

lemma uniq_Add_keep_first: "uniq_Add (keep_first ys) x = keep_first (ys @ [x])"
  by (simp add: uniq_Add_def keep_first_snoc set_keep_first)

lemma foldl_uniq_Add: "foldl uniq_Add (keep_first ys) xs = keep_first (ys @ xs)"
proof (induction xs arbitrary: ys)
  case Nil
  then show ?case by simp
next
  case (Cons x xs)
  have "foldl uniq_Add (keep_first ys) (x # xs) = foldl uniq_Add (keep_first (ys @ [x])) xs"
    by (simp add: uniq_Add_keep_first)
  also have "\<dots> = keep_first ((ys @ [x]) @ xs)" by (rule Cons.IH)
  finally show ?case by simp
qed

lemma Split_examples:
  "Split [] = [[]]"
  "Split ''src/*/a.go'' = [''src'', ''*'', ''a.go'']"
  "Split ''/tmp/x/'' = [[], ''tmp'', ''x'', []]"
  by simp_all

lemma ToSlash_examples:
  "ToSlash (demo_tree\<lparr>Separator := CHR 0x5C\<rparr>) [CHR ''a'', CHR 0x5C, CHR ''b''] = ''a/b''"
  "ToSlash demo_tree ''src/x'' = ''src/x''"
  by (simp_all add: ToSlash_def demo_tree_def demo_world_def)

lemma hasGlob_examples:
  "hasGlob ''*.go''" "hasGlob ''a?''" "hasGlob ''[ab]''" "hasGlob ''{a,b}''"
  "hasGlob [CHR 0x5C, CHR ''a'']" "\<not> hasGlob ''src''" "\<not> hasGlob []"
  by (simp_all add: hasGlob_def)

lemma hasGlob_glob_segment: "hasGlob e = glob_segment e"
  by (auto simp: hasGlob_def glob_segment_def list_ex_iff)

lemma literalPrefix_takeWhile:
  "literalPrefix sep es = concat (map (\<lambda>e. e @ [sep]) (takeWhile (\<lambda>e. \<not> glob_segment e) es))"
  by (induction es) (auto simp: hasGlob_glob_segment)

lemma findRealDirectory_literal_prefix:
  "findRealDirectory w path =
     (if IsDir w (literal_prefix w path) then literal_prefix w path else [])"
  by (simp add: findRealDirectory_def literal_prefix_def literalPrefix_takeWhile Let_def)

lemma findDirs_loop_resolve:
  "findDirs_loop w pats maxWatchDirs (keep_first ys)
     = spec_resolve maxWatchDirs (concat (map (spec_sources w) pats)) ys"
proof (induction pats arbitrary: ys)
  case Nil
  then show ?case by simp
next
  case (Cons pattern rest)
  let ?r = "findRealDirectory w (Dir w pattern)"
  let ?c1 = "existing_directory w (literal_prefix w (Dir w pattern))"
  let ?c2 = "snd (Find w pattern)"
  let ?c3 = "snd (Find w (Dir w pattern))"
  have t1: "(if length ?r > 0 then uniq_Add (keep_first ys) ?r else keep_first ys)
      = keep_first (ys @ ?c1)"
    by (simp add: findRealDirectory_literal_prefix existing_directory_def uniq_Add_keep_first)
  have t2: "foldl uniq_Add (keep_first (ys @ ?c1)) ?c2 = keep_first ((ys @ ?c1) @ ?c2)"
    by (rule foldl_uniq_Add)
  have t3: "foldl uniq_Add (keep_first ((ys @ ?c1) @ ?c2)) ?c3 = keep_first (((ys @ ?c1) @ ?c2) @ ?c3)"
    by (rule foldl_uniq_Add)
  have src: "concat (map (spec_sources w) (pattern # rest))
      = ?c1 # ?c2 # ?c3 # concat (map (spec_sources w) rest)"
    by (simp add: spec_sources_def)
  show ?case
    unfolding src findDirs_loop.simps Let_def t1 t2 t3 spec_resolve.simps
    using Cons.IH [of "((ys @ ?c1) @ ?c2) @ ?c3"] by simp
qed

lemma resolve_take:
  "\<exists>k \<le> length cs.
     spec_resolve mx cs seen = keep_first (seen @ concat (take k cs))
     \<and> (k = length cs \<or> mx < int (length (spec_resolve mx cs seen)))
     \<and> (\<forall>j. 0 < j \<and> j < k \<longrightarrow> int (length (keep_first (seen @ concat (take j cs)))) \<le> mx)"
proof (induction cs arbitrary: seen)
  case Nil
  then show ?case by simp
next
  case (Cons c cs)
  show ?case
  proof (cases "int (length (keep_first (seen @ c))) > mx")
    case True
    then show ?thesis by (intro exI [of _ 1]) simp
  next
    case False
    from Cons.IH [of "seen @ c"] obtain k where k: "k \<le> length cs"
      and r: "spec_resolve mx cs (seen @ c) = keep_first ((seen @ c) @ concat (take k cs))"
      and e: "k = length cs \<or> mx < int (length (spec_resolve mx cs (seen @ c)))"
      and b: "\<forall>j. 0 < j \<and> j < k \<longrightarrow> int (length (keep_first ((seen @ c) @ concat (take j cs)))) \<le> mx"
      by blast
    have "\<forall>j. 0 < j \<and> j < Suc k \<longrightarrow>
        int (length (keep_first (seen @ concat (take j (c # cs))))) \<le> mx"
    proof (intro allI impI)
      fix j assume j: "0 < j \<and> j < Suc k"
      then obtain i where i: "j = Suc i" by (cases j) auto
      show "int (length (keep_first (seen @ concat (take j (c # cs))))) \<le> mx"
      proof (cases i)
        case 0
        with False i show ?thesis by simp
      next
        case (Suc i')
        with j i b show ?thesis by simp
      qed
    qed
    with False k r e show ?thesis by (intro exI [of _ "Suc k"]) simp
  qed
qed

text \<open>The resolver in the tree: what \<^verbatim>\<open>findRealDirectory\<close> and \<^verbatim>\<open>findDirs\<close> compute there.\<close>

lemma demo_tree_fields:
  "Clean demo_tree p = p"
  "Separator demo_tree = CHR ''/''"
  "TrimSuffix demo_tree = trim_suffix"
  "IsDir demo_tree p = (p = ''.'' \<or> p = ''src'' \<or> p = ''src/x'')"
  "Dir demo_tree ''src/*/a.go'' = ''src/*''"
  "Dir demo_tree ''src'' = ''.''"
  "snd (Find demo_tree ''src/*/a.go'') = [''src/x'']"
  "snd (Find demo_tree ''src/*'') = [''src/x'']"
  "snd (Find demo_tree ''src'') = [''src'']"
  "snd (Find demo_tree ''.'') = [''.'']"
  by (simp_all add: demo_tree_def demo_world_def)

lemma demo_tree_findRealDirectory:
  "findRealDirectory demo_tree ''src/*'' = ''src''"
  "findRealDirectory demo_tree ''.'' = ''.''"
  by (simp_all add: findRealDirectory_def Let_def demo_tree_fields ToSlash_def hasGlob_def
      trim_suffix_def)

lemma demo_tree_literal_prefix:
  "literal_prefix demo_tree ''src'' = ''src''"
  by (simp add: literal_prefix_def demo_tree_fields ToSlash_def glob_segment_def trim_suffix_def)

lemma demo_tree_findDirs:
  "findDirs demo_tree [''src/*/a.go'', ''src''] 10 = [''src'', ''src/x'', ''.'']"
  "findDirs demo_tree [''src/*/a.go'', ''src''] 1 = [''src'', ''src/x'']"
  "findDirs demo_tree [''src''] 10 = [''.'', ''src'']"
  "findDirs demo_tree [''src''] 0 = [''.'']"
  by (simp_all add: findDirs_def Let_def demo_tree_fields demo_tree_findRealDirectory uniq_Add_def)

text \<open>
  C7, as stated, fails. For the pattern \<^verbatim>\<open>src\<close>, an existing directory without a glob
  character, the literal leading prefix of the pattern is \<^verbatim>\<open>src\<close> itself, so the claim
  has \<^verbatim>\<open>src\<close> added first and then the current directory from source (3). The code takes
  the prefix of \<^verbatim>\<open>filepath.Dir("src")\<close>, the current directory, adds that first and \<^verbatim>\<open>src\<close>
  from source (2) after it; with the limit 0 it returns the current directory alone,
  where the claim returns \<^verbatim>\<open>src\<close> alone.
\<close>

theorem prefix_of_pattern_counterexample:
  "findDirs demo_tree [''src''] 10 = [''.'', ''src'']
   \<and> claimed_findDirs demo_tree [''src''] 10 = [''src'', ''.'']
   \<and> findDirs demo_tree [''src''] 0 = [''.'']
   \<and> claimed_findDirs demo_tree [''src''] 0 = [''src'']"
  by (simp add: demo_tree_findDirs)
    (simp add: claimed_findDirs_def claimed_sources_def existing_directory_def
      demo_tree_literal_prefix demo_tree_fields keep_first_def)

text \<open>
  C7, amended. For every pattern list and every \<open>maxDirs\<close>, \<^verbatim>\<open>findDirs\<close> is the resolver of
  the spec over the sources of the patterns in order, three for each pattern: (1) the
  literal leading prefix of the parent of the pattern (\<^verbatim>\<open>filepath.Dir\<close>), up to the first
  segment with a glob metacharacter, when it is not empty and an existing directory,
  (2) the directories of the expansion of the pattern, (3) the directories of the
  expansion of its parent. The result has no duplicates and is in insertion order: it is
  \<open>keep_first\<close> of the first \<open>k\<close> sources, where no earlier source left the set larger
  than \<open>maxDirs\<close> and either all sources are taken or the result is larger than
  \<open>maxDirs\<close>, so no source after the one that goes over the limit is looked at.
\<close>

theorem findDirs_resolves_sources:
  fixes w :: World and patterns :: "string list" and maxDirs :: int
  defines "sources \<equiv> concat (map (spec_sources w) patterns)"
  shows "findDirs w patterns maxDirs = spec_resolve maxDirs sources []
    \<and> distinct (findDirs w patterns maxDirs)
    \<and> (\<exists>k \<le> length sources.
          findDirs w patterns maxDirs = keep_first (concat (take k sources))
          \<and> (k = length sources \<or> maxDirs < int (length (findDirs w patterns maxDirs)))
          \<and> (\<forall>j. 0 < j \<and> j < k \<longrightarrow> int (length (keep_first (concat (take j sources)))) \<le> maxDirs))"
proof -
  have "keep_first [] = []" by (simp add: keep_first_def)
  then have a: "findDirs w patterns maxDirs = spec_resolve maxDirs sources []"
    unfolding findDirs_def sources_def using findDirs_loop_resolve [of w patterns maxDirs "[]"] by simp
  from resolve_take [of sources maxDirs "[]"] obtain k where "k \<le> length sources"
    and r: "spec_resolve maxDirs sources [] = keep_first ([] @ concat (take k sources))"
    and "k = length sources \<or> maxDirs < int (length (spec_resolve maxDirs sources []))"
    and "\<forall>j. 0 < j \<and> j < k \<longrightarrow> int (length (keep_first ([] @ concat (take j sources)))) \<le> maxDirs"
    by blast
  then have c: "\<exists>k \<le> length sources.
          findDirs w patterns maxDirs = keep_first (concat (take k sources))
          \<and> (k = length sources \<or> maxDirs < int (length (findDirs w patterns maxDirs)))
          \<and> (\<forall>j. 0 < j \<and> j < k \<longrightarrow> int (length (keep_first (concat (take j sources)))) \<le> maxDirs)"
    unfolding a by (intro exI [of _ k]) simp
  have b: "distinct (findDirs w patterns maxDirs)"
    unfolding a r by (rule distinct_keep_first)
  from a b c show ?thesis by blast
qed

theorem findDirs_resolves_sources_witness:
  "concat (map (spec_sources demo_tree) [''src/*/a.go'', ''src''])
     = [[''src''], [''src/x''], [''src/x''], [''.''], [''src''], [''.'']]
   \<and> spec_resolve 10 (concat (map (spec_sources demo_tree) [''src/*/a.go'', ''src''])) []
     = [''src'', ''src/x'', ''.'']
   \<and> spec_resolve 1 (concat (map (spec_sources demo_tree) [''src/*/a.go'', ''src''])) []
     = [''src'', ''src/x'']
   \<and> findDirs demo_tree [''src/*/a.go'', ''src''] 1 = [''src'', ''src/x'']
   \<and> distinct (findDirs demo_tree [''src/*/a.go'', ''src''] 1)"
proof -
  note T10 = findDirs_resolves_sources [of demo_tree "[''src/*/a.go'', ''src'']" 10]
  note T1 = findDirs_resolves_sources [of demo_tree "[''src/*/a.go'', ''src'']" 1]
  have s: "concat (map (spec_sources demo_tree) [''src/*/a.go'', ''src''])
     = [[''src''], [''src/x''], [''src/x''], [''.''], [''src''], [''.'']]"
    by (simp add: spec_sources_def existing_directory_def literal_prefix_def demo_tree_fields
        ToSlash_def glob_segment_def trim_suffix_def)
  from T10 have r10: "spec_resolve 10 (concat (map (spec_sources demo_tree) [''src/*/a.go'', ''src''])) []
      = findDirs demo_tree [''src/*/a.go'', ''src''] 10"
    by simp
  from T1 have r1: "spec_resolve 1 (concat (map (spec_sources demo_tree) [''src/*/a.go'', ''src''])) []
      = findDirs demo_tree [''src/*/a.go'', ''src''] 1"
    by simp
  from T1 have d: "distinct (findDirs demo_tree [''src/*/a.go'', ''src''] 1)" by blast
  show ?thesis
  proof (intro conjI)
    show "spec_resolve 10 (concat (map (spec_sources demo_tree) [''src/*/a.go'', ''src''])) []
        = [''src'', ''src/x'', ''.'']"
      unfolding r10 by (rule demo_tree_findDirs)
    show "spec_resolve 1 (concat (map (spec_sources demo_tree) [''src/*/a.go'', ''src''])) []
        = [''src'', ''src/x'']"
      unfolding r1 by (rule demo_tree_findDirs)
    show "findDirs demo_tree [''src/*/a.go'', ''src''] 1 = [''src'', ''src/x'']"
      by (rule demo_tree_findDirs)
  qed (rule s d)+
qed

lemma demo_findRealDirectory: "findRealDirectory (demo_world m t) ''src'' = ''src''"
  by (simp add: findRealDirectory_def Let_def demo_world_def ToSlash_def hasGlob_def trim_suffix_def)

lemma demo_findDirs: "findDirs (demo_world m t) [''src/*.txt''] maxDirs = [''src'']"
proof -
  have "Dir (demo_world m t) ''src/*.txt'' = ''src''" by (simp add: demo_world_def)
  moreover have "snd (Find (demo_world m t) ''src/*.txt'') = [''src'']"
    "snd (Find (demo_world m t) ''src'') = [''src'']"
    by (simp_all add: demo_world_def)
  ultimately show ?thesis
    by (simp add: findDirs_def Let_def demo_findRealDirectory uniq_Add_def)
qed

text \<open>
  \<^verbatim>\<open>gazer.New\<close>, the caller of \<^verbatim>\<open>notify.New\<close>, does not look at the error: it keeps the nil
  pointer in the \<^verbatim>\<open>Gazer\<close> it returns.
\<close>

lemma gazer_New_drops_error:
  "fst (New w (map (Clean w) pats) maxWatchDirs) = Inl e \<Longrightarrow>
     gazer_New w maxWatchDirs pats
       = \<lparr>patterns = map (Clean w) pats, notify = None, gazerIsClosed = False, counter = 0\<rparr>"
  by (simp add: gazer_New_def Let_def)

lemma demo_New_fails:
  "New demo_failing_world pats maxWatchDirs = (Inl (WatcherError ''too many open files''), [])"
  by (simp add: New_def demo_failing_world_def)

text \<open>
  C5, as stated, fails. When the watch source does not initialize, \<^verbatim>\<open>notify.New\<close> returns
  the error, but \<^verbatim>\<open>gazer.New\<close> drops it and returns a \<^verbatim>\<open>Gazer\<close>, an object that is not nil and
  whose \<^verbatim>\<open>notify\<close> is nil: the caller of \<^verbatim>\<open>gazer.New\<close> gets no error and a partial object. With
  the negative limit -1 the resolved set of one directory exceeds the limit, and
  \<^verbatim>\<open>notify.New\<close> panics in \<^verbatim>\<open>watchDirs[:maxWatchDirs]\<close> instead of returning the error.
\<close>

theorem construction_error_dropped_counterexample:
  "fst (New demo_failing_world (map (Clean demo_failing_world) [''src/*.txt'']) 10)
     = Inl (WatcherError ''too many open files'')
   \<and> gazer_New demo_failing_world 10 [''src/*.txt'']
     = \<lparr>patterns = [''src/*.txt''], notify = None, gazerIsClosed = False, counter = 0\<rparr>
   \<and> findDirs (demo_world 0 0) [''src/*.txt''] (- 1) = [''src'']
   \<and> New (demo_world 0 0) [''src/*.txt''] (- 1) = (Inl SliceBounds, [])"
proof -
  have "NewWatcherErr (demo_world 0 0) = None" by (simp add: demo_world_def)
  then have "New (demo_world 0 0) [''src/*.txt''] (- 1) = (Inl SliceBounds, [])"
    by (simp add: New_def Let_def demo_findDirs)
  moreover have "Clean demo_failing_world = (\<lambda>p. p)"
    by (simp add: demo_failing_world_def demo_world_def)
  ultimately show ?thesis
    by (simp add: demo_New_fails gazer_New_def Let_def demo_findDirs)
qed

text \<open>
  C5, amended. For every pattern list and every limit that is not negative: when
  \<^verbatim>\<open>fsnotify.NewWatcher()\<close> fails, \<^verbatim>\<open>notify.New\<close> returns that error and no \<^verbatim>\<open>Notify\<close>; when the
  resolved directories are more than \<^verbatim>\<open>maxWatchDirs\<close>, it returns the error
  \<^verbatim>\<open>too many watchDirs\<close> and no \<^verbatim>\<open>Notify\<close>. Whenever \<^verbatim>\<open>notify.New\<close> fails, \<^verbatim>\<open>watcher.Add\<close> was
  called for no directory, and a \<^verbatim>\<open>Notify\<close> is returned only when neither failure occurs.
  The caller \<^verbatim>\<open>gazer.New\<close> drops the error of a failed \<^verbatim>\<open>notify.New\<close> and returns the \<^verbatim>\<open>Gazer\<close>
  with the cleaned patterns and a nil \<^verbatim>\<open>notify\<close>.
\<close>

theorem construction_failure:
  "(NewWatcherErr w = Some err \<longrightarrow> New w pats maxWatchDirs = (Inl (WatcherError err), []))
   \<and> (NewWatcherErr w = None \<and> 0 \<le> maxWatchDirs
        \<and> maxWatchDirs < int (length (findDirs w pats maxWatchDirs))
       \<longrightarrow> New w pats maxWatchDirs = (Inl TooManyWatchDirs, []))
   \<and> (fst (New w pats maxWatchDirs) = Inl e \<longrightarrow> snd (New w pats maxWatchDirs) = [])
   \<and> (fst (New w pats maxWatchDirs) = Inr n \<longrightarrow>
        NewWatcherErr w = None \<and> int (length (findDirs w pats maxWatchDirs)) \<le> maxWatchDirs)
   \<and> (fst (New w (map (Clean w) pats) maxWatchDirs) = Inl e \<longrightarrow>
        gazer_New w maxWatchDirs pats
          = \<lparr>patterns = map (Clean w) pats, notify = None, gazerIsClosed = False, counter = 0\<rparr>)"
proof -
  have "(NewWatcherErr w = Some err \<longrightarrow> New w pats maxWatchDirs = (Inl (WatcherError err), []))
   \<and> (NewWatcherErr w = None \<and> 0 \<le> maxWatchDirs
        \<and> maxWatchDirs < int (length (findDirs w pats maxWatchDirs))
       \<longrightarrow> New w pats maxWatchDirs = (Inl TooManyWatchDirs, []))
   \<and> (fst (New w pats maxWatchDirs) = Inl e \<longrightarrow> snd (New w pats maxWatchDirs) = [])
   \<and> (fst (New w pats maxWatchDirs) = Inr n \<longrightarrow>
        NewWatcherErr w = None \<and> int (length (findDirs w pats maxWatchDirs)) \<le> maxWatchDirs)"
    by (auto simp: New_def Let_def split: option.splits if_splits)
  then show ?thesis using gazer_New_drops_error [of w pats maxWatchDirs e] by blast
qed

theorem construction_failure_witness:
  "NewWatcherErr demo_failing_world = Some ''too many open files''
   \<and> New demo_failing_world [''src/*.txt''] 10 = (Inl (WatcherError ''too many open files''), [])
   \<and> New (demo_world 0 0) [''src/*.txt''] 0 = (Inl TooManyWatchDirs, [])
   \<and> fst (New (demo_world 0 0) [''src/*.txt''] 10) = Inr demo_notify
   \<and> gazer_New demo_failing_world 10 [''src/*.txt'']
     = \<lparr>patterns = [''src/*.txt''], notify = None, gazerIsClosed = False, counter = 0\<rparr>"
proof -
  let ?e = "WatcherError ''too many open files''"
  have e: "NewWatcherErr demo_failing_world = Some ''too many open files''"
    by (simp add: demo_failing_world_def)
  have o: "NewWatcherErr (demo_world 0 0) = None \<and> (0::int) \<le> 0
      \<and> 0 < int (length (findDirs (demo_world 0 0) [''src/*.txt''] 0))"
    by (simp add: demo_findDirs) (simp add: demo_world_def)
  have s: "fst (New (demo_world 0 0) [''src/*.txt''] 10) = Inr demo_notify"
  proof -
    have "NewWatcherErr (demo_world 0 0) = None" "\<And>t. \<not> AddErr (demo_world 0 0) t"
      by (simp_all add: demo_world_def)
    then show ?thesis by (simp add: New_def Let_def demo_findDirs demo_notify_def)
  qed
  have f: "fst (New demo_failing_world (map (Clean demo_failing_world) [''src/*.txt'']) 10) = Inl ?e"
    by (simp add: demo_New_fails)
  have c: "map (Clean demo_failing_world) [''src/*.txt''] = [''src/*.txt'']"
    by (simp add: demo_failing_world_def demo_world_def)
  have "New demo_failing_world [''src/*.txt''] 10 = (Inl ?e, [])"
    using construction_failure [of demo_failing_world "''too many open files''"
        "[''src/*.txt'']" 10] e by blast
  moreover have "New (demo_world 0 0) [''src/*.txt''] 0 = (Inl TooManyWatchDirs, [])"
    using construction_failure [of "demo_world 0 0" "''''" "[''src/*.txt'']" 0] o by blast
  moreover have "gazer_New demo_failing_world 10 [''src/*.txt'']
      = \<lparr>patterns = map (Clean demo_failing_world) [''src/*.txt''], notify = None,
         gazerIsClosed = False, counter = 0\<rparr>"
    using construction_failure [of demo_failing_world "''''" "[''src/*.txt'']" 10 ?e] f by blast
  ultimately show ?thesis using e s c by simp
qed

end
